theory Spec2Isabelle
  imports Main
begin

section \<open>Primitives: errors, directions, coordinates (utils.py)\<close>

text \<open>
  Python exceptions that the modelled code can raise. A function that may raise returns
  \<open>error + 'a\<close>, with \<open>Inl\<close> carrying the exception.
\<close>

datatype error = RuntimeError | ValueError | IndexError | KeyError

datatype Direction = WEST | EAST | NORTH | SOUTH

fun opposite :: "Direction \<Rightarrow> Direction" where
  "opposite WEST = EAST"
| "opposite EAST = WEST"
| "opposite NORTH = SOUTH"
| "opposite SOUTH = NORTH"

fun counter_clockwise :: "Direction \<Rightarrow> Direction" where
  "counter_clockwise WEST = SOUTH"
| "counter_clockwise SOUTH = EAST"
| "counter_clockwise EAST = NORTH"
| "counter_clockwise NORTH = WEST"

fun clockwise :: "Direction \<Rightarrow> Direction" where
  "clockwise WEST = NORTH"
| "clockwise NORTH = EAST"
| "clockwise EAST = SOUTH"
| "clockwise SOUTH = WEST"

text \<open>The dataclass \<open>Coordinates\<close>: two Python integers, unbounded and possibly negative.\<close>

record Coordinates =
  coord_x :: int
  coord_y :: int

section \<open>Cells and the square grid (grid.py)\<close>

text \<open>
  A \<open>Cell\<close> object holds its coordinates and a dictionary from directions to neighbouring
  \<open>Cell\<close> objects. The neighbours are references to the very objects stored in
  \<open>SquareGrid._cells\<close>, so a reference is modelled as the position \<open>(i, j)\<close> of the object
  in that list of lists, and \<open>_cells\<close> itself is the store.
\<close>

type_synonym cell_ref = "nat \<times> nat"

record Cell =
  cell_coordinates :: Coordinates
  neighbours :: "Direction \<rightharpoonup> cell_ref"

type_synonym cells = "Cell list list"

definition Cell_init :: "int \<Rightarrow> int \<Rightarrow> Cell" where
  "Cell_init x y = \<lparr>cell_coordinates = \<lparr>coord_x = x, coord_y = y\<rparr>, neighbours = Map.empty\<rparr>"

definition cell_at :: "cells \<Rightarrow> cell_ref \<Rightarrow> Cell" where
  "cell_at cs a = cs ! fst a ! snd a"

definition cell_upd :: "cells \<Rightarrow> cell_ref \<Rightarrow> (Cell \<Rightarrow> Cell) \<Rightarrow> cells" where
  "cell_upd cs a f = cs[fst a := (cs ! fst a)[snd a := f (cs ! fst a ! snd a)]]"

text \<open>
  \<open>Cell.set_neighbour\<close>: raises when the direction is already taken, otherwise writes the
  forward link into \<open>self\<close> and then the reverse link into the neighbour.
\<close>

definition set_neighbour :: "cells \<Rightarrow> cell_ref \<Rightarrow> cell_ref \<Rightarrow> Direction \<Rightarrow> error + cells" where
  "set_neighbour cs self neighbour direction =
     (if neighbours (cell_at cs self) direction \<noteq> None then Inl RuntimeError
      else
        let cs1 = cell_upd cs self (\<lambda>c. c\<lparr>neighbours := (neighbours c)(direction \<mapsto> neighbour)\<rparr>);
            cs2 = cell_upd cs1 neighbour
                    (\<lambda>c. c\<lparr>neighbours := (neighbours c)(opposite direction \<mapsto> self)\<rparr>)
        in Inr cs2)"

definition get_neighbour :: "Cell \<Rightarrow> Direction \<Rightarrow> cell_ref option" where
  "get_neighbour c direction = neighbours c direction"

definition get_coordinates :: "Cell \<Rightarrow> Coordinates" where
  "get_coordinates c =
     \<lparr>coord_x = coord_x (cell_coordinates c), coord_y = coord_y (cell_coordinates c)\<rparr>"

record SquareGrid =
  grid_size :: int
  grid_cells :: cells

text \<open>\<open>range(size)\<close>: empty when \<open>size \<le> 0\<close>.\<close>

definition range_py :: "int \<Rightarrow> nat list" where
  "range_py n = [0..<nat n]"

text \<open>The body of the two nested loops of \<open>_initialize_neighbors\<close>, for one \<open>(x, y)\<close>.\<close>

definition link_cell :: "int \<Rightarrow> nat \<Rightarrow> nat \<Rightarrow> cells \<Rightarrow> error + cells" where
  "link_cell sz x y cs =
     (case (if int x < sz - 1 then set_neighbour cs (x, y) (x + 1, y) EAST else Inr cs) of
        Inl e \<Rightarrow> Inl e
      | Inr cs1 \<Rightarrow>
          if int y < sz - 1 then set_neighbour cs1 (x, y) (x, y + 1) NORTH else Inr cs1)"

fun for_y :: "int \<Rightarrow> nat \<Rightarrow> nat list \<Rightarrow> cells \<Rightarrow> error + cells" where
  "for_y sz x [] cs = Inr cs"
| "for_y sz x (y # ys) cs =
     (case link_cell sz x y cs of Inl e \<Rightarrow> Inl e | Inr cs' \<Rightarrow> for_y sz x ys cs')"

fun for_x :: "int \<Rightarrow> nat list \<Rightarrow> cells \<Rightarrow> error + cells" where
  "for_x sz [] cs = Inr cs"
| "for_x sz (x # xs) cs =
     (case for_y sz x (range_py sz) cs of Inl e \<Rightarrow> Inl e | Inr cs' \<Rightarrow> for_x sz xs cs')"

definition initialize_neighbors :: "int \<Rightarrow> cells \<Rightarrow> error + cells" where
  "initialize_neighbors sz cs = for_x sz (range_py sz) cs"

definition SquareGrid_init :: "int \<Rightarrow> error + SquareGrid" where
  "SquareGrid_init sz =
     (let cs = map (\<lambda>x. map (\<lambda>y. Cell_init (int x) (int y)) (range_py sz)) (range_py sz)
      in case initialize_neighbors sz cs of
           Inl e \<Rightarrow> Inl e
         | Inr cs' \<Rightarrow> Inr \<lparr>grid_size = sz, grid_cells = cs'\<rparr>)"

text \<open>
  \<open>xs[i]\<close> on a Python list: indices \<open>0 .. len - 1\<close> read from the front, indices
  \<open>-len .. -1\<close> read from the back, and every other index raises \<open>IndexError\<close>.
\<close>

definition py_getitem :: "'a list \<Rightarrow> int \<Rightarrow> error + 'a" where
  "py_getitem xs i =
     (if 0 \<le> i \<and> i < int (length xs) then Inr (xs ! nat i)
      else if - int (length xs) \<le> i \<and> i < 0 then Inr (xs ! nat (int (length xs) + i))
      else Inl IndexError)"

definition get_next_cell_coordinates ::
    "SquareGrid \<Rightarrow> Coordinates \<Rightarrow> Direction \<Rightarrow> error + Coordinates option" where
  "get_next_cell_coordinates g coordinates direction =
     (case py_getitem (grid_cells g) (coord_x coordinates) of
        Inl e \<Rightarrow> Inl e
      | Inr row \<Rightarrow>
          (case py_getitem row (coord_y coordinates) of
             Inl e \<Rightarrow> Inl e
           | Inr cell \<Rightarrow>
               (case get_neighbour cell direction of
                  None \<Rightarrow> Inr None
                | Some next_cell \<Rightarrow> Inr (Some (get_coordinates (cell_at (grid_cells g) next_cell))))))"

definition is_valid_cell :: "SquareGrid \<Rightarrow> Coordinates \<Rightarrow> bool" where
  "is_valid_cell g coordinates =
     (coord_x coordinates < grid_size g \<and> coord_y coordinates < grid_size g)"

section \<open>Commands and the robot (toy_robot.py)\<close>

datatype RobotRotation = RIGHT | LEFT

datatype RobotCommand =
    NopRobotCommand
  | PlaceRobotCommand Coordinates Direction
  | MoveRobotCommand
  | TurnRobotCommand RobotRotation
  | ReportRobotCommand

text \<open>
  The robot's mutable fields; \<open>None\<close> is Python's \<open>None\<close>. The command receiver is passed to
  \<open>spin\<close> separately, and the diagnostic and report lines written by \<open>print\<close> are not part
  of the state.
\<close>

record Robot =
  robot_coordinates :: "Coordinates option"
  robot_direction :: "Direction option"
  robot_grid :: SquareGrid

definition Robot_init :: "SquareGrid \<Rightarrow> Robot" where
  "Robot_init grid = \<lparr>robot_coordinates = None, robot_direction = None, robot_grid = grid\<rparr>"

text \<open>The property setters; the one for the coordinates stores a fresh copy.\<close>

definition set_direction :: "Robot \<Rightarrow> Direction \<Rightarrow> Robot" where
  "set_direction robot direction = robot\<lparr>robot_direction := Some direction\<rparr>"

definition set_coordinates :: "Robot \<Rightarrow> Coordinates \<Rightarrow> Robot" where
  "set_coordinates robot coordinates =
     robot\<lparr>robot_coordinates :=
       Some \<lparr>coord_x = coord_x coordinates, coord_y = coord_y coordinates\<rparr>\<rparr>"

definition is_on_grid :: "Robot \<Rightarrow> bool" where
  "is_on_grid robot = (robot_coordinates robot \<noteq> None \<and> robot_direction robot \<noteq> None)"

text \<open>
  \<open>execute\<close> returns what the call returns or raises, together with the robot as the call
  leaves it. After the \<open>is_on_grid\<close> guard both fields are present, so \<open>the\<close> reads them.
\<close>

fun execute :: "RobotCommand \<Rightarrow> Robot \<Rightarrow> (error + bool) \<times> Robot" where
  "execute NopRobotCommand robot = (Inr True, robot)"
| "execute (PlaceRobotCommand coordinates direction) robot =
     (if is_valid_cell (robot_grid robot) coordinates
      then (Inr True, set_direction (set_coordinates robot coordinates) direction)
      else (Inr False, robot))"
| "execute MoveRobotCommand robot =
     (if \<not> is_on_grid robot then (Inr False, robot)
      else
        (case get_next_cell_coordinates (robot_grid robot)
                (the (robot_coordinates robot)) (the (robot_direction robot)) of
           Inl e \<Rightarrow> (Inl e, robot)
         | Inr None \<Rightarrow> (Inr False, robot)
         | Inr (Some new_coordinates) \<Rightarrow> (Inr True, set_coordinates robot new_coordinates)))"
| "execute (TurnRobotCommand robot_rotation) robot =
     (if \<not> is_on_grid robot then (Inr False, robot)
      else if robot_rotation = RIGHT
        then (Inr True, set_direction robot (clockwise (the (robot_direction robot))))
        else (Inr True, set_direction robot (counter_clockwise (the (robot_direction robot)))))"
| "execute ReportRobotCommand robot =
     (if \<not> is_on_grid robot then (Inr False, robot) else (Inr True, robot))"

section \<open>The command parser (RobotApiHandler)\<close>

text \<open>
  \<open>str.split(sep)\<close> with a one-character separator: every occurrence of the separator
  ends a field, so the result is never empty and may hold empty fields.
\<close>

fun split_on :: "char \<Rightarrow> string \<Rightarrow> string list" where
  "split_on sep [] = [[]]"
| "split_on sep (c # cs) =
     (if c = sep then [] # split_on sep cs
      else (case split_on sep cs of f # fs \<Rightarrow> (c # f) # fs | [] \<Rightarrow> [[c]]))"

text \<open>
  A \<open>char\<close> stands for the code point of the same number, so strings are Python strings
  over code points 0 to 255. There \<open>str.isdigit\<close> holds of the ten ASCII digits and of the
  superscripts two, three and one (code points 178, 179 and 185); \<open>int\<close> accepts, among
  the strings that pass \<open>isdigit\<close>, those made of ASCII digits only and raises
  \<open>ValueError\<close> on the others. \<open>py_int\<close> models \<open>int\<close> on strings that passed \<open>isdigit\<close>.
  The interpreter's configurable limit on the length of a decimal string, beyond which
  \<open>int\<close> raises \<open>ValueError\<close> as well, is left out: it only turns more lines into
  no-ops.
\<close>

definition isdigit_char :: "char \<Rightarrow> bool" where
  "isdigit_char c =
     (let k = (of_char c :: nat) in (48 \<le> k \<and> k \<le> 57) \<or> k = 178 \<or> k = 179 \<or> k = 185)"

definition isdigit :: "string \<Rightarrow> bool" where
  "isdigit s = (s \<noteq> [] \<and> list_all isdigit_char s)"

definition decimal_digit :: "char \<Rightarrow> int option" where
  "decimal_digit c =
     (let k = (of_char c :: nat) in if 48 \<le> k \<and> k \<le> 57 then Some (int k - 48) else None)"

fun py_int_from :: "int \<Rightarrow> string \<Rightarrow> error + int" where
  "py_int_from acc [] = Inr acc"
| "py_int_from acc (c # cs) =
     (case decimal_digit c of
        None \<Rightarrow> Inl ValueError
      | Some v \<Rightarrow> py_int_from (10 * acc + v) cs)"

definition py_int :: "string \<Rightarrow> error + int" where
  "py_int s = (if s = [] then Inl ValueError else py_int_from 0 s)"

definition Direction_members :: "string \<rightharpoonup> Direction" where
  "Direction_members =
     map_of [(''WEST'', WEST), (''EAST'', EAST), (''NORTH'', NORTH), (''SOUTH'', SOUTH)]"

definition RobotRotation_members :: "string \<rightharpoonup> RobotRotation" where
  "RobotRotation_members = map_of [(''RIGHT'', RIGHT), (''LEFT'', LEFT)]"

definition generate_place_command :: "string list \<Rightarrow> error + RobotCommand" where
  "generate_place_command data =
     (if length data \<noteq> 2 then Inl RuntimeError
      else
        let params = split_on CHR '','' (data ! 1) in
        (case py_getitem params 0 of Inl e \<Rightarrow> Inl e | Inr p0 \<Rightarrow>
        (if \<not> isdigit p0 then Inl ValueError else
        (case py_getitem params 1 of Inl e \<Rightarrow> Inl e | Inr p1 \<Rightarrow>
        (if \<not> isdigit p1 then Inl ValueError else
        (case py_getitem params 2 of Inl e \<Rightarrow> Inl e | Inr p2 \<Rightarrow>
        (if Direction_members p2 = None then Inl ValueError else
        (case py_int p0 of Inl e \<Rightarrow> Inl e | Inr x \<Rightarrow>
        (case py_int p1 of Inl e \<Rightarrow> Inl e | Inr y \<Rightarrow>
        (case Direction_members p2 of None \<Rightarrow> Inl KeyError | Some direction \<Rightarrow>
           Inr (PlaceRobotCommand \<lparr>coord_x = x, coord_y = y\<rparr> direction)))))))))))"

definition generate_turn_command :: "string list \<Rightarrow> error + RobotCommand" where
  "generate_turn_command data =
     (if length data \<noteq> 1 then Inl RuntimeError
      else case RobotRotation_members (data ! 0) of
             None \<Rightarrow> Inl RuntimeError
           | Some rotation \<Rightarrow> Inr (TurnRobotCommand rotation))"

definition generate_move_command :: "string list \<Rightarrow> error + RobotCommand" where
  "generate_move_command data =
     (if length data \<noteq> 1 then Inl RuntimeError else Inr MoveRobotCommand)"

definition generate_report_command :: "string list \<Rightarrow> error + RobotCommand" where
  "generate_report_command data =
     (if length data \<noteq> 1 then Inl RuntimeError else Inr ReportRobotCommand)"

definition api_generator_map :: "string \<rightharpoonup> (string list \<Rightarrow> error + RobotCommand)" where
  "api_generator_map =
     map_of [(''PLACE'', generate_place_command),
             (''MOVE'', generate_move_command),
             (''LEFT'', generate_turn_command),
             (''RIGHT'', generate_turn_command),
             (''REPORT'', generate_report_command)]"

text \<open>The body of the \<open>try\<close> block of \<open>generate_command\<close>.\<close>

definition generate_command_try :: "string \<Rightarrow> error + RobotCommand" where
  "generate_command_try command =
     (let data = split_on CHR '' '' command in
      case py_getitem data 0 of
        Inl e \<Rightarrow> Inl e
      | Inr keyword \<Rightarrow>
          (case api_generator_map keyword of
             None \<Rightarrow> Inl RuntimeError
           | Some command_generator \<Rightarrow> command_generator data))"

text \<open>\<open>except Exception\<close> turns every exception of the body into a no-op command.\<close>

definition generate_command :: "string \<Rightarrow> RobotCommand" where
  "generate_command command =
     (case generate_command_try command of Inl e \<Rightarrow> NopRobotCommand | Inr c \<Rightarrow> c)"

section \<open>The drive loop\<close>

text \<open>\<open>line.strip('\n')\<close>: drops the line feeds at both ends.\<close>

definition strip_newlines :: "string \<Rightarrow> string" where
  "strip_newlines s =
     rev (dropWhile (\<lambda>c. c = CHR 0x0A) (rev (dropWhile (\<lambda>c. c = CHR 0x0A) s)))"

text \<open>
  \<open>Robot.spin\<close> fed by a \<open>StubFileCommandReceiver\<close> holding the given lines: each line is
  stripped, parsed and executed; an exception raised by \<open>execute\<close> ends the loop.
\<close>

fun spin :: "string list \<Rightarrow> Robot \<Rightarrow> (error + unit) \<times> Robot" where
  "spin [] robot = (Inr (), robot)"
| "spin (line # rest) robot =
     (case execute (generate_command (strip_newlines line)) robot of
        (Inl e, robot') \<Rightarrow> (Inl e, robot')
      | (Inr ok, robot') \<Rightarrow> spin rest robot')"

section \<open>The command grammar as the specification words it\<close>

text \<open>
  The specification's grammar: a bare keyword \<open>MOVE\<close>, \<open>LEFT\<close>, \<open>RIGHT\<close> or \<open>REPORT\<close>, or
  \<open>PLACE\<close>, one space, and exactly three comma-separated fields, of which the first two
  are unsigned decimal integers and the third is a direction name.
\<close>

definition spec_unsigned_decimal :: "string \<Rightarrow> bool" where
  "spec_unsigned_decimal s = (s \<noteq> [] \<and> list_all (\<lambda>c. c \<in> set ''0123456789'') s)"

definition spec_place_arguments :: "string \<Rightarrow> bool" where
  "spec_place_arguments remainder =
     (case split_on CHR '','' remainder of
        [fx, fy, fd] \<Rightarrow>
          spec_unsigned_decimal fx \<and> spec_unsigned_decimal fy
          \<and> fd \<in> set [''WEST'', ''EAST'', ''NORTH'', ''SOUTH'']
      | _ \<Rightarrow> False)"

definition spec_valid_command :: "string \<Rightarrow> bool" where
  "spec_valid_command s =
     (s \<in> set [''MOVE'', ''LEFT'', ''RIGHT'', ''REPORT'']
      \<or> (case split_on CHR '' '' s of
            [keyword, remainder] \<Rightarrow> keyword = ''PLACE'' \<and> spec_place_arguments remainder
          | _ \<Rightarrow> False))"

section \<open>Invariants used in the proofs\<close>

text \<open>A store of \<open>n\<close> rows of \<open>n\<close> cells, and a reference that points into it.\<close>

definition grid_shape :: "nat \<Rightarrow> cells \<Rightarrow> bool" where
  "grid_shape n cs = (length cs = n \<and> (\<forall>i<n. length (cs ! i) = n))"

definition in_grid :: "nat \<Rightarrow> cell_ref \<Rightarrow> bool" where
  "in_grid n a = (fst a < n \<and> snd a < n)"

text \<open>
  The links that exist once the loop body has run for the cells in \<open>D\<close>: a cell of \<open>D\<close> has
  its east and north links, and its east and north neighbours have the links back.
\<close>

fun links :: "nat \<Rightarrow> cell_ref set \<Rightarrow> cell_ref \<Rightarrow> Direction \<Rightarrow> cell_ref option" where
  "links n D (i, j) EAST = (if (i, j) \<in> D \<and> i + 1 < n then Some (i + 1, j) else None)"
| "links n D (i, j) NORTH = (if (i, j) \<in> D \<and> j + 1 < n then Some (i, j + 1) else None)"
| "links n D (i, j) WEST = (if 0 < i \<and> (i - 1, j) \<in> D then Some (i - 1, j) else None)"
| "links n D (i, j) SOUTH = (if 0 < j \<and> (i, j - 1) \<in> D then Some (i, j - 1) else None)"

definition linked :: "nat \<Rightarrow> cell_ref set \<Rightarrow> cells \<Rightarrow> bool" where
  "linked n D cs =
     (grid_shape n cs \<and>
      (\<forall>i j. in_grid n (i, j) \<longrightarrow>
             cell_coordinates (cell_at cs (i, j)) = \<lparr>coord_x = int i, coord_y = int j\<rparr>
           \<and> (\<forall>d. neighbours (cell_at cs (i, j)) d = links n D (i, j) d)))"

text \<open>The links in the middle of the loop body at \<open>(x, y)\<close>, after its east half.\<close>

definition links_east ::
    "nat \<Rightarrow> cell_ref set \<Rightarrow> nat \<Rightarrow> nat \<Rightarrow> cell_ref \<Rightarrow> Direction \<Rightarrow> cell_ref option" where
  "links_east n D x y c d =
     (if x + 1 < n \<and> c = (x + 1, y) \<and> d = WEST then Some (x, y)
      else if x + 1 < n \<and> c = (x, y) \<and> d = EAST then Some (x + 1, y)
      else links n D c d)"

text \<open>The robot is unplaced, or placed on a cell of the grid of side \<open>n\<close>.\<close>

definition unplaced_or_in_range :: "int \<Rightarrow> Robot \<Rightarrow> bool" where
  "unplaced_or_in_range n robot =
     (case robot_coordinates robot of
        None \<Rightarrow> robot_direction robot = None
      | Some c \<Rightarrow> robot_direction robot \<noteq> None
          \<and> 0 \<le> coord_x c \<and> coord_x c < n \<and> 0 \<le> coord_y c \<and> coord_y c < n)"

section \<open>Direction algebra\<close>

text \<open>
  C6. For every direction \<open>d\<close>: four clockwise turns give \<open>d\<close> back; \<open>clockwise\<close> and
  \<open>counter_clockwise\<close> undo each other in both orders; \<open>opposite\<close> is two clockwise turns;
  and \<open>opposite\<close> is an involution.
\<close>

theorem direction_rotation_algebra:
  "clockwise (clockwise (clockwise (clockwise d))) = d
   \<and> counter_clockwise (clockwise d) = d
   \<and> clockwise (counter_clockwise d) = d
   \<and> opposite d = clockwise (clockwise d)
   \<and> opposite (opposite d) = d"
  by (cases d) simp_all

section \<open>The grid construction\<close>

lemma cell_at_upd:
  "grid_shape n cs \<Longrightarrow> fst a < n \<Longrightarrow> snd a < n \<Longrightarrow> fst b < n \<Longrightarrow> snd b < n \<Longrightarrow>
   cell_at (cell_upd cs a f) b = (if a = b then f (cell_at cs a) else cell_at cs b)"
  by (auto simp: grid_shape_def cell_at_def cell_upd_def nth_list_update prod_eq_iff)

lemma grid_shape_upd: "grid_shape n cs \<Longrightarrow> grid_shape n (cell_upd cs a f)"
proof (cases "fst a < length cs")
  case True
  assume "grid_shape n cs"
  with True show ?thesis
    by (auto simp: grid_shape_def cell_upd_def nth_list_update)
next
  case False
  assume "grid_shape n cs"
  with False show ?thesis
    by (simp add: grid_shape_def cell_upd_def)
qed

lemma set_neighbour_at:
  assumes "grid_shape n cs" "in_grid n a" "in_grid n b" "neighbours (cell_at cs a) d = None"
  shows "\<exists>cs'. set_neighbour cs a b d = Inr cs' \<and> grid_shape n cs' \<and>
           (\<forall>c. in_grid n c \<longrightarrow>
              cell_coordinates (cell_at cs' c) = cell_coordinates (cell_at cs c) \<and>
              (\<forall>d'. neighbours (cell_at cs' c) d' =
                 (if c = b \<and> d' = opposite d then Some a
                  else if c = a \<and> d' = d then Some b
                  else neighbours (cell_at cs c) d')))"
  using assms
  by (simp add: set_neighbour_def Let_def in_grid_def grid_shape_upd
      cell_at_upd [where n = n])

lemma linkedD:
  assumes "linked n D cs" "in_grid n (i, j)"
  shows "cell_coordinates (cell_at cs (i, j)) = \<lparr>coord_x = int i, coord_y = int j\<rparr>"
    and "neighbours (cell_at cs (i, j)) d = links n D (i, j) d"
    and "grid_shape n cs"
  using assms unfolding linked_def by blast+

lemma east_step:
  assumes "linked n D cs" "x < n" "y < n" "(x, y) \<notin> D"
  shows "\<exists>cs1. (if int x < int n - 1 then set_neighbour cs (x, y) (x + 1, y) EAST else Inr cs) = Inr cs1
           \<and> grid_shape n cs1
           \<and> (\<forall>i j. in_grid n (i, j) \<longrightarrow>
                 cell_coordinates (cell_at cs1 (i, j)) = \<lparr>coord_x = int i, coord_y = int j\<rparr>
               \<and> (\<forall>d. neighbours (cell_at cs1 (i, j)) d = links_east n D x y (i, j) d))"
proof (cases "int x < int n - 1")
  case True
  then have b: "in_grid n (x + 1, y)" using assms by (simp add: in_grid_def)
  have a: "in_grid n (x, y)" using assms by (simp add: in_grid_def)
  have free: "neighbours (cell_at cs (x, y)) EAST = None"
    using assms(4) by (simp add: linkedD(2) [OF assms(1) a])
  note sh = linkedD(3) [OF assms(1) a]
  from set_neighbour_at [OF sh a b free] obtain cs1 where
    cs1: "set_neighbour cs (x, y) (x + 1, y) EAST = Inr cs1" "grid_shape n cs1"
      "\<And>c. in_grid n c \<Longrightarrow> cell_coordinates (cell_at cs1 c) = cell_coordinates (cell_at cs c)"
      "\<And>c d'. in_grid n c \<Longrightarrow> neighbours (cell_at cs1 c) d' =
                 (if c = (x + 1, y) \<and> d' = opposite EAST then Some (x, y)
                  else if c = (x, y) \<and> d' = EAST then Some (x + 1, y)
                  else neighbours (cell_at cs c) d')"
    by blast
  have "cell_coordinates (cell_at cs1 (i, j)) = \<lparr>coord_x = int i, coord_y = int j\<rparr>
               \<and> (\<forall>d. neighbours (cell_at cs1 (i, j)) d = links_east n D x y (i, j) d)"
    if c: "in_grid n (i, j)" for i j
    using True by (simp add: cs1(3) [OF c] cs1(4) [OF c] linkedD(1,2) [OF assms(1) c] links_east_def)
  with cs1(1,2) True show ?thesis by simp
next
  case False
  then have nx: "\<not> x + 1 < n" by simp
  have "cell_coordinates (cell_at cs (i, j)) = \<lparr>coord_x = int i, coord_y = int j\<rparr>
               \<and> (\<forall>d. neighbours (cell_at cs (i, j)) d = links_east n D x y (i, j) d)"
    if c: "in_grid n (i, j)" for i j
    using nx by (simp add: linkedD(1,2) [OF assms(1) c] links_east_def)
  moreover have "grid_shape n cs" using assms(1) by (simp add: linked_def)
  ultimately show ?thesis using False by simp
qed

lemma links_insert:
  assumes "(x, y) \<notin> D" "x < n" "y < n" "i < n" "j < n"
  shows "links n (insert (x, y) D) (i, j) d =
     (if y + 1 < n \<and> (i, j) = (x, y + 1) \<and> d = SOUTH then Some (x, y)
      else if y + 1 < n \<and> (i, j) = (x, y) \<and> d = NORTH then Some (x, y + 1)
      else links_east n D x y (i, j) d)"
proof (cases d)
  case WEST
  then show ?thesis using assms by (auto simp: links_east_def)
next
  case EAST
  then show ?thesis using assms by (auto simp: links_east_def)
next
  case NORTH
  then show ?thesis using assms by (auto simp: links_east_def)
next
  case SOUTH
  then show ?thesis using assms by (auto simp: links_east_def)
qed


lemma link_cell_step:
  assumes "linked n D cs" "x < n" "y < n" "(x, y) \<notin> D"
  shows "\<exists>cs'. link_cell (int n) x y cs = Inr cs' \<and> linked n (insert (x, y) D) cs'"
proof -
  have a: "in_grid n (x, y)" using assms by (simp add: in_grid_def)
  from east_step [OF assms] obtain cs1 where
    e: "(if int x < int n - 1 then set_neighbour cs (x, y) (x + 1, y) EAST else Inr cs) = Inr cs1"
    and sh1: "grid_shape n cs1"
    and co1: "\<And>i j. in_grid n (i, j) \<Longrightarrow>
                 cell_coordinates (cell_at cs1 (i, j)) = \<lparr>coord_x = int i, coord_y = int j\<rparr>"
    and nb1: "\<And>i j d. in_grid n (i, j) \<Longrightarrow>
                 neighbours (cell_at cs1 (i, j)) d = links_east n D x y (i, j) d"
    by blast
  show ?thesis
  proof (cases "int y < int n - 1")
    case True
    then have b: "in_grid n (x, y + 1)" using assms by (simp add: in_grid_def)
    have free: "neighbours (cell_at cs1 (x, y)) NORTH = None"
      using assms(4) by (simp add: nb1 [OF a] links_east_def)
    from set_neighbour_at [OF sh1 a b free] obtain cs2 where
      cs2: "set_neighbour cs1 (x, y) (x, y + 1) NORTH = Inr cs2" "grid_shape n cs2"
      "\<And>c. in_grid n c \<Longrightarrow> cell_coordinates (cell_at cs2 c) = cell_coordinates (cell_at cs1 c)"
      "\<And>c d'. in_grid n c \<Longrightarrow> neighbours (cell_at cs2 c) d' =
                 (if c = (x, y + 1) \<and> d' = opposite NORTH then Some (x, y)
                  else if c = (x, y) \<and> d' = NORTH then Some (x, y + 1)
                  else neighbours (cell_at cs1 c) d')"
      by blast
    have "cell_coordinates (cell_at cs2 (i, j)) = \<lparr>coord_x = int i, coord_y = int j\<rparr>
            \<and> (\<forall>d. neighbours (cell_at cs2 (i, j)) d = links n (insert (x, y) D) (i, j) d)"
      if c: "in_grid n (i, j)" for i j
    proof -
      from c have ij: "i < n" "j < n" by (simp_all add: in_grid_def)
      from True have "y + 1 < n" by simp
      then show ?thesis
        by (simp add: cs2(3) [OF c] cs2(4) [OF c] co1 [OF c] nb1 [OF c]
            links_insert [OF assms(4,2,3) ij])
    qed
    then have "linked n (insert (x, y) D) cs2"
      unfolding linked_def using cs2(2) by blast
    with e cs2(1) True show ?thesis by (simp add: link_cell_def)
  next
    case False
    have "cell_coordinates (cell_at cs1 (i, j)) = \<lparr>coord_x = int i, coord_y = int j\<rparr>
            \<and> (\<forall>d. neighbours (cell_at cs1 (i, j)) d = links n (insert (x, y) D) (i, j) d)"
      if c: "in_grid n (i, j)" for i j
    proof -
      from c have ij: "i < n" "j < n" by (simp_all add: in_grid_def)
      from False have "\<not> y + 1 < n" by simp
      then show ?thesis
        by (simp add: co1 [OF c] nb1 [OF c] links_insert [OF assms(4,2,3) ij])
    qed
    then have "linked n (insert (x, y) D) cs1"
      unfolding linked_def using sh1 by blast
    with e False show ?thesis by (simp add: link_cell_def)
  qed
qed

lemma for_y_linked:
  assumes "linked n D cs" "x < n" "distinct ys" "\<forall>y \<in> set ys. y < n \<and> (x, y) \<notin> D"
  shows "\<exists>cs'. for_y (int n) x ys cs = Inr cs' \<and> linked n (D \<union> {x} \<times> set ys) cs'"
  using assms
proof (induction ys arbitrary: cs D)
  case Nil
  then show ?case by simp
next
  case (Cons y ys)
  from Cons.prems have y: "y < n" "(x, y) \<notin> D" by simp_all
  from link_cell_step [OF Cons.prems(1,2) y] obtain cs1 where
    cs1: "link_cell (int n) x y cs = Inr cs1" "linked n (insert (x, y) D) cs1" by blast
  have "\<exists>cs'. for_y (int n) x ys cs1 = Inr cs' \<and> linked n (insert (x, y) D \<union> {x} \<times> set ys) cs'"
    using Cons.prems by (intro Cons.IH [OF cs1(2)]) auto
  moreover have "insert (x, y) D \<union> {x} \<times> set ys = D \<union> {x} \<times> set (y # ys)" by auto
  ultimately show ?case using cs1(1) by simp
qed

lemma for_x_linked:
  assumes "linked n D cs" "distinct xs" "\<forall>x \<in> set xs. x < n \<and> (\<forall>y. (x, y) \<notin> D)"
  shows "\<exists>cs'. for_x (int n) xs cs = Inr cs' \<and> linked n (D \<union> set xs \<times> {..<n}) cs'"
  using assms
proof (induction xs arbitrary: cs D)
  case Nil
  then show ?case by simp
next
  case (Cons x xs)
  from Cons.prems have x: "x < n" "\<forall>y. (x, y) \<notin> D" by simp_all
  have "\<exists>cs'. for_y (int n) x (range_py (int n)) cs = Inr cs'
          \<and> linked n (D \<union> {x} \<times> set (range_py (int n))) cs'"
    using x by (intro for_y_linked [OF Cons.prems(1)]) (simp_all add: range_py_def)
  then obtain cs1 where
    cs1: "for_y (int n) x (range_py (int n)) cs = Inr cs1" "linked n (D \<union> {x} \<times> {..<n}) cs1"
    by (auto simp: range_py_def lessThan_atLeast0)
  have "\<exists>cs'. for_x (int n) xs cs1 = Inr cs' \<and> linked n ((D \<union> {x} \<times> {..<n}) \<union> set xs \<times> {..<n}) cs'"
    using Cons.prems by (intro Cons.IH [OF cs1(2)]) auto
  moreover have "(D \<union> {x} \<times> {..<n}) \<union> set xs \<times> {..<n} = D \<union> set (x # xs) \<times> {..<n}" by auto
  ultimately show ?case using cs1(1) by simp
qed


lemma links_empty: "links n {} a d = None"
  by (cases a; cases d) simp_all

lemma links_in_grid:
  "links n D (i, j) d = Some a \<Longrightarrow> i < n \<Longrightarrow> j < n \<Longrightarrow> in_grid n a"
  by (cases d) (auto simp: in_grid_def split: if_splits)

lemma initial_cells_linked:
  "linked n {} (map (\<lambda>x. map (\<lambda>y. Cell_init (int x) (int y)) [0..<n]) [0..<n])"
  by (simp add: linked_def grid_shape_def in_grid_def cell_at_def Cell_init_def links_empty)

lemma SquareGrid_init_linked:
  assumes "0 \<le> sz"
  shows "\<exists>g. SquareGrid_init sz = Inr g \<and> grid_size g = sz
           \<and> linked (nat sz) ({..<nat sz} \<times> {..<nat sz}) (grid_cells g)"
proof -
  define n where "n = nat sz"
  with assms have sz: "sz = int n" by simp
  have "\<exists>cs'. for_x (int n) [0..<n] (map (\<lambda>x. map (\<lambda>y. Cell_init (int x) (int y)) [0..<n]) [0..<n]) = Inr cs'
          \<and> linked n ({} \<union> set [0..<n] \<times> {..<n}) cs'"
    by (intro for_x_linked [OF initial_cells_linked]) simp_all
  then obtain cs' where
    "for_x (int n) [0..<n] (map (\<lambda>x. map (\<lambda>y. Cell_init (int x) (int y)) [0..<n]) [0..<n]) = Inr cs'"
    "linked n ({..<n} \<times> {..<n}) cs'"
    by (auto simp: lessThan_atLeast0)
  then show ?thesis
    by (simp add: SquareGrid_init_def initialize_neighbors_def range_py_def sz)
qed

lemma get_next_linked:
  assumes "linked n D (grid_cells g)" "i < n" "j < n"
  shows "get_next_cell_coordinates g \<lparr>coord_x = int i, coord_y = int j\<rparr> d =
           Inr (map_option (\<lambda>a. \<lparr>coord_x = int (fst a), coord_y = int (snd a)\<rparr>) (links n D (i, j) d))"
proof -
  have c: "in_grid n (i, j)" using assms by (simp add: in_grid_def)
  from assms(1) have sh: "length (grid_cells g) = n" "length (grid_cells g ! i) = n"
    using assms(2) by (simp_all add: linked_def grid_shape_def)
  have row: "py_getitem (grid_cells g) (int i) = Inr (grid_cells g ! i)"
    using assms(2) sh by (simp add: py_getitem_def)
  have cell: "py_getitem (grid_cells g ! i) (int j) = Inr (cell_at (grid_cells g) (i, j))"
    using assms(3) sh by (simp add: py_getitem_def cell_at_def)
  show ?thesis
  proof (cases "links n D (i, j) d")
    case None
    then show ?thesis
      by (simp add: get_next_cell_coordinates_def row cell get_neighbour_def
          linkedD(2) [OF assms(1) c])
  next
    case (Some a)
    obtain p q where a: "a = (p, q)" by (cases a)
    from links_in_grid [OF Some assms(2,3)] have "in_grid n (p, q)" by (simp add: a)
    from linkedD(1) [OF assms(1) this] Some show ?thesis
      by (simp add: get_next_cell_coordinates_def row cell get_neighbour_def
          linkedD(2) [OF assms(1) c] get_coordinates_def a)
  qed
qed


lemma SquareGrid_init_next:
  assumes "0 < n"
  shows "\<exists>g. SquareGrid_init n = Inr g \<and> grid_size g = n \<and> length (grid_cells g) = nat n
           \<and> (\<forall>i j d. i < nat n \<longrightarrow> j < nat n \<longrightarrow>
                get_next_cell_coordinates g \<lparr>coord_x = int i, coord_y = int j\<rparr> d =
                  Inr (map_option (\<lambda>a. \<lparr>coord_x = int (fst a), coord_y = int (snd a)\<rparr>)
                         (links (nat n) ({..<nat n} \<times> {..<nat n}) (i, j) d)))"
proof -
  from assms have "0 \<le> n" by simp
  from SquareGrid_init_linked [OF this] obtain g where
    g: "SquareGrid_init n = Inr g" "grid_size g = n"
       "linked (nat n) ({..<nat n} \<times> {..<nat n}) (grid_cells g)"
    by blast
  from g(3) have "length (grid_cells g) = nat n" by (simp add: linked_def grid_shape_def)
  with g get_next_linked [OF g(3)] show ?thesis by blast
qed

text \<open>
  C7. On the grid built by \<open>SquareGrid(n)\<close>, \<open>n > 0\<close>, for coordinates \<open>(x, y)\<close> with
  \<open>0 \<le> x < n\<close> and \<open>0 \<le> y < n\<close>: the construction raises nothing, and
  \<open>get_next_cell_coordinates\<close> returns \<open>(x + 1, y)\<close> for EAST if \<open>x + 1 < n\<close>,
  \<open>(x - 1, y)\<close> for WEST if \<open>x > 0\<close>, \<open>(x, y + 1)\<close> for NORTH if \<open>y + 1 < n\<close>,
  \<open>(x, y - 1)\<close> for SOUTH if \<open>y > 0\<close>, and \<open>None\<close> at the respective boundary.
\<close>

theorem get_next_cell_coordinates_lattice:
  assumes "0 < n" "0 \<le> x" "x < n" "0 \<le> y" "y < n"
  shows "\<exists>g. SquareGrid_init n = Inr g
     \<and> get_next_cell_coordinates g \<lparr>coord_x = x, coord_y = y\<rparr> EAST =
         Inr (if x + 1 < n then Some \<lparr>coord_x = x + 1, coord_y = y\<rparr> else None)
     \<and> get_next_cell_coordinates g \<lparr>coord_x = x, coord_y = y\<rparr> WEST =
         Inr (if 0 < x then Some \<lparr>coord_x = x - 1, coord_y = y\<rparr> else None)
     \<and> get_next_cell_coordinates g \<lparr>coord_x = x, coord_y = y\<rparr> NORTH =
         Inr (if y + 1 < n then Some \<lparr>coord_x = x, coord_y = y + 1\<rparr> else None)
     \<and> get_next_cell_coordinates g \<lparr>coord_x = x, coord_y = y\<rparr> SOUTH =
         Inr (if 0 < y then Some \<lparr>coord_x = x, coord_y = y - 1\<rparr> else None)"
proof -
  from SquareGrid_init_next [OF assms(1)] obtain g where
    g: "SquareGrid_init n = Inr g"
    and nx: "\<And>i j d. i < nat n \<Longrightarrow> j < nat n \<Longrightarrow>
                get_next_cell_coordinates g \<lparr>coord_x = int i, coord_y = int j\<rparr> d =
                  Inr (map_option (\<lambda>a. \<lparr>coord_x = int (fst a), coord_y = int (snd a)\<rparr>)
                         (links (nat n) ({..<nat n} \<times> {..<nat n}) (i, j) d))"
    by blast
  from assms have xy: "nat x < nat n" "nat y < nat n" by simp_all
  have at: "get_next_cell_coordinates g \<lparr>coord_x = x, coord_y = y\<rparr> d =
              Inr (map_option (\<lambda>a. \<lparr>coord_x = int (fst a), coord_y = int (snd a)\<rparr>)
                     (links (nat n) ({..<nat n} \<times> {..<nat n}) (nat x, nat y) d))" for d
    using nx [OF xy, of d] assms by simp
  have "get_next_cell_coordinates g \<lparr>coord_x = x, coord_y = y\<rparr> EAST =
         Inr (if x + 1 < n then Some \<lparr>coord_x = x + 1, coord_y = y\<rparr> else None)"
    using assms by (auto simp: at)
  moreover have "get_next_cell_coordinates g \<lparr>coord_x = x, coord_y = y\<rparr> WEST =
         Inr (if 0 < x then Some \<lparr>coord_x = x - 1, coord_y = y\<rparr> else None)"
    using assms by (auto simp: at)
  moreover have "get_next_cell_coordinates g \<lparr>coord_x = x, coord_y = y\<rparr> NORTH =
         Inr (if y + 1 < n then Some \<lparr>coord_x = x, coord_y = y + 1\<rparr> else None)"
    using assms by (auto simp: at)
  moreover have "get_next_cell_coordinates g \<lparr>coord_x = x, coord_y = y\<rparr> SOUTH =
         Inr (if 0 < y then Some \<lparr>coord_x = x, coord_y = y - 1\<rparr> else None)"
    using assms by (auto simp: at)
  ultimately show ?thesis using g by blast
qed

theorem get_next_cell_coordinates_lattice_witness:
  "\<exists>g. SquareGrid_init 5 = Inr g
     \<and> get_next_cell_coordinates g \<lparr>coord_x = 4, coord_y = 0\<rparr> EAST = Inr None
     \<and> get_next_cell_coordinates g \<lparr>coord_x = 4, coord_y = 0\<rparr> WEST =
         Inr (Some \<lparr>coord_x = 3, coord_y = 0\<rparr>)
     \<and> get_next_cell_coordinates g \<lparr>coord_x = 4, coord_y = 0\<rparr> NORTH =
         Inr (Some \<lparr>coord_x = 4, coord_y = 1\<rparr>)
     \<and> get_next_cell_coordinates g \<lparr>coord_x = 4, coord_y = 0\<rparr> SOUTH = Inr None"
  using get_next_cell_coordinates_lattice [of 5 4 0] by simp

lemma links_opposite:
  assumes "links n ({..<n} \<times> {..<n}) (i, j) d = Some (p, q)" "i < n" "j < n"
  shows "links n ({..<n} \<times> {..<n}) (p, q) (opposite d) = Some (i, j)"
  using assms by (cases d) (auto split: if_splits)

text \<open>
  C8. Link symmetry on the grid built by \<open>SquareGrid(n)\<close>, \<open>n > 0\<close>: whenever
  \<open>get_next_cell_coordinates\<close> at in-range coordinates \<open>c\<close> and direction \<open>d\<close> returns
  coordinates \<open>c'\<close>, the lookup at \<open>c'\<close> in direction \<open>opposite d\<close> returns \<open>c\<close>.
\<close>

theorem link_symmetry:
  assumes "0 < n"
  shows "\<exists>g. SquareGrid_init n = Inr g
     \<and> (\<forall>x y d c'. 0 \<le> x \<and> x < n \<and> 0 \<le> y \<and> y < n
           \<and> get_next_cell_coordinates g \<lparr>coord_x = x, coord_y = y\<rparr> d = Inr (Some c')
         \<longrightarrow> get_next_cell_coordinates g c' (opposite d) =
               Inr (Some \<lparr>coord_x = x, coord_y = y\<rparr>))"
proof -
  let ?D = "{..<nat n} \<times> {..<nat n}"
  from SquareGrid_init_next [OF assms(1)] obtain g where
    g: "SquareGrid_init n = Inr g"
    and nx: "\<And>i j d. i < nat n \<Longrightarrow> j < nat n \<Longrightarrow>
                get_next_cell_coordinates g \<lparr>coord_x = int i, coord_y = int j\<rparr> d =
                  Inr (map_option (\<lambda>a. \<lparr>coord_x = int (fst a), coord_y = int (snd a)\<rparr>)
                         (links (nat n) ?D (i, j) d))"
    by blast
  have "get_next_cell_coordinates g c' (opposite d) = Inr (Some \<lparr>coord_x = x, coord_y = y\<rparr>)"
    if h: "0 \<le> x" "x < n" "0 \<le> y" "y < n"
      "get_next_cell_coordinates g \<lparr>coord_x = x, coord_y = y\<rparr> d = Inr (Some c')"
    for x y d c'
  proof -
    from h have xy: "nat x < nat n" "nat y < nat n" by simp_all
    from nx [OF xy, of d] h have
      "map_option (\<lambda>a. \<lparr>coord_x = int (fst a), coord_y = int (snd a)\<rparr>)
         (links (nat n) ?D (nat x, nat y) d) = Some c'"
      by simp
    then obtain a where a: "links (nat n) ?D (nat x, nat y) d = Some a"
      "c' = \<lparr>coord_x = int (fst a), coord_y = int (snd a)\<rparr>"
      by auto
    obtain p q where "a = (p, q)" by (cases a)
    with a have pq: "links (nat n) ?D (nat x, nat y) d = Some (p, q)"
        "c' = \<lparr>coord_x = int p, coord_y = int q\<rparr>"
      by simp_all
    from links_in_grid [OF pq(1) xy] have "p < nat n" "q < nat n" by (simp_all add: in_grid_def)
    from nx [OF this, of "opposite d"] links_opposite [OF pq(1) xy] h show ?thesis
      by (simp add: pq(2))
  qed
  with g show ?thesis by blast
qed

theorem link_symmetry_witness:
  "\<exists>g. SquareGrid_init 2 = Inr g
     \<and> get_next_cell_coordinates g \<lparr>coord_x = 0, coord_y = 0\<rparr> EAST =
         Inr (Some \<lparr>coord_x = 1, coord_y = 0\<rparr>)
     \<and> get_next_cell_coordinates g \<lparr>coord_x = 1, coord_y = 0\<rparr> (opposite EAST) =
         Inr (Some \<lparr>coord_x = 0, coord_y = 0\<rparr>)"
proof -
  from link_symmetry [of 2] obtain g where
    g: "SquareGrid_init 2 = Inr g"
    and sym: "\<And>x y d c'. 0 \<le> x \<and> x < 2 \<and> 0 \<le> y \<and> y < 2
           \<and> get_next_cell_coordinates g \<lparr>coord_x = x, coord_y = y\<rparr> d = Inr (Some c')
         \<Longrightarrow> get_next_cell_coordinates g c' (opposite d) =
               Inr (Some \<lparr>coord_x = x, coord_y = y\<rparr>)"
    by auto
  from SquareGrid_init_next [of 2] g have
    nx: "\<And>i j d. i < nat 2 \<Longrightarrow> j < nat 2 \<Longrightarrow>
                get_next_cell_coordinates g \<lparr>coord_x = int i, coord_y = int j\<rparr> d =
                  Inr (map_option (\<lambda>a. \<lparr>coord_x = int (fst a), coord_y = int (snd a)\<rparr>)
                         (links (nat 2) ({..<nat 2} \<times> {..<nat 2}) (i, j) d))"
    by auto
  from nx [of 0 0 EAST] have
    e': "get_next_cell_coordinates g \<lparr>coord_x = 0, coord_y = 0\<rparr> EAST =
         Inr (Some \<lparr>coord_x = 1, coord_y = 0\<rparr>)" by simp
  from sym [of 0 0 EAST "\<lparr>coord_x = 1, coord_y = 0\<rparr>"] e' g show ?thesis by simp
qed

text \<open>
  C1. \<open>is_valid_cell\<close> is claimed to hold exactly when \<open>0 \<le> x < n\<close> and \<open>0 \<le> y < n\<close>, and
  so to reject negative coordinates. The code compares with the size only: on the grid
  of size 5 it accepts \<open>(-6, 0)\<close>, coordinates at which the neighbour lookup raises
  \<open>IndexError\<close>.
\<close>

theorem is_valid_cell_negative:
  "\<exists>g. SquareGrid_init 5 = Inr g
     \<and> is_valid_cell g \<lparr>coord_x = - 6, coord_y = 0\<rparr>
     \<and> get_next_cell_coordinates g \<lparr>coord_x = - 6, coord_y = 0\<rparr> NORTH = Inl IndexError"
proof -
  from SquareGrid_init_next [of 5] obtain g where
    "SquareGrid_init 5 = Inr g" "grid_size g = 5" "length (grid_cells g) = nat 5"
    by auto
  then show ?thesis
    by (simp add: is_valid_cell_def get_next_cell_coordinates_def py_getitem_def)
qed

section \<open>Executing commands\<close>

lemma set_coordinates_eq [simp]:
  "set_coordinates r c = r\<lparr>robot_coordinates := Some c\<rparr>"
  by (simp add: set_coordinates_def)

text \<open>
  C4. Executing \<open>Place(coordinates, direction)\<close> returns true exactly when
  \<open>is_valid_cell\<close> holds of the coordinates on the robot's grid; then the robot's
  coordinates and direction are the given ones, and otherwise the robot is unchanged.
\<close>

theorem place_execute:
  "fst (execute (PlaceRobotCommand c d) r) = Inr (is_valid_cell (robot_grid r) c)
   \<and> (is_valid_cell (robot_grid r) c \<longrightarrow>
        snd (execute (PlaceRobotCommand c d) r) =
          r\<lparr>robot_coordinates := Some c, robot_direction := Some d\<rparr>)
   \<and> (\<not> is_valid_cell (robot_grid r) c \<longrightarrow> snd (execute (PlaceRobotCommand c d) r) = r)"
  by (simp add: set_direction_def)

theorem place_execute_witness:
  "is_valid_cell \<lparr>grid_size = 1, grid_cells = [[Cell_init 0 0]]\<rparr> \<lparr>coord_x = 0, coord_y = 0\<rparr>
   \<and> execute (PlaceRobotCommand \<lparr>coord_x = 0, coord_y = 0\<rparr> NORTH)
        (Robot_init \<lparr>grid_size = 1, grid_cells = [[Cell_init 0 0]]\<rparr>) =
      (Inr True, \<lparr>robot_coordinates = Some \<lparr>coord_x = 0, coord_y = 0\<rparr>,
                  robot_direction = Some NORTH,
                  robot_grid = \<lparr>grid_size = 1, grid_cells = [[Cell_init 0 0]]\<rparr>\<rparr>)
   \<and> \<not> is_valid_cell \<lparr>grid_size = 1, grid_cells = [[Cell_init 0 0]]\<rparr> \<lparr>coord_x = 1, coord_y = 0\<rparr>
   \<and> execute (PlaceRobotCommand \<lparr>coord_x = 1, coord_y = 0\<rparr> NORTH)
        (Robot_init \<lparr>grid_size = 1, grid_cells = [[Cell_init 0 0]]\<rparr>) =
      (Inr False, Robot_init \<lparr>grid_size = 1, grid_cells = [[Cell_init 0 0]]\<rparr>)"
  using place_execute [of "\<lparr>coord_x = 0, coord_y = 0\<rparr>" NORTH
          "Robot_init \<lparr>grid_size = 1, grid_cells = [[Cell_init 0 0]]\<rparr>"]
        place_execute [of "\<lparr>coord_x = 1, coord_y = 0\<rparr>" NORTH
          "Robot_init \<lparr>grid_size = 1, grid_cells = [[Cell_init 0 0]]\<rparr>"]
  by (simp add: is_valid_cell_def Robot_init_def prod_eq_iff)

text \<open>
  C3. Executing \<open>Move\<close> returns true exactly when the robot is placed and the grid reports
  a neighbour in the robot's direction; then the coordinates become the neighbour's and
  the direction stays; whenever it does not return true (it returns false, or the grid
  lookup raises) the robot is unchanged.
\<close>

theorem move_execute:
  "(fst (execute MoveRobotCommand r) = Inr True \<longleftrightarrow>
      is_on_grid r \<and>
      (\<exists>c d c'. robot_coordinates r = Some c \<and> robot_direction r = Some d
         \<and> get_next_cell_coordinates (robot_grid r) c d = Inr (Some c')))
   \<and> (\<forall>c d c'. robot_coordinates r = Some c \<and> robot_direction r = Some d
         \<and> get_next_cell_coordinates (robot_grid r) c d = Inr (Some c')
       \<longrightarrow> execute MoveRobotCommand r = (Inr True, r\<lparr>robot_coordinates := Some c'\<rparr>))
   \<and> (fst (execute MoveRobotCommand r) \<noteq> Inr True \<longrightarrow> snd (execute MoveRobotCommand r) = r)"
  by (auto simp: is_on_grid_def split: sum.splits option.splits)

text \<open>
  C10. Placedness is monotone: if \<open>is_on_grid\<close> holds before a command is executed, it
  holds afterwards, whatever the command and whatever it returns or raises.
\<close>

theorem placedness_monotone:
  "is_on_grid r \<Longrightarrow> is_on_grid (snd (execute cmd r))"
  by (cases cmd) (auto simp: is_on_grid_def set_direction_def split: sum.splits option.splits)

lemma unplaced_fails:
  "\<not> is_on_grid r \<Longrightarrow> cmd \<in> {MoveRobotCommand, TurnRobotCommand rot, ReportRobotCommand} \<Longrightarrow>
   execute cmd r = (Inr False, r)"
  by auto


theorem move_execute_witness:
  "\<exists>g. SquareGrid_init 2 = Inr g
     \<and> is_on_grid \<lparr>robot_coordinates = Some \<lparr>coord_x = 0, coord_y = 0\<rparr>,
                   robot_direction = Some EAST, robot_grid = g\<rparr>
     \<and> get_next_cell_coordinates g \<lparr>coord_x = 0, coord_y = 0\<rparr> EAST =
         Inr (Some \<lparr>coord_x = 1, coord_y = 0\<rparr>)
     \<and> execute MoveRobotCommand
          \<lparr>robot_coordinates = Some \<lparr>coord_x = 0, coord_y = 0\<rparr>,
           robot_direction = Some EAST, robot_grid = g\<rparr> =
        (Inr True, \<lparr>robot_coordinates = Some \<lparr>coord_x = 1, coord_y = 0\<rparr>,
                    robot_direction = Some EAST, robot_grid = g\<rparr>)"
proof -
  from SquareGrid_init_next [of 2] obtain g where
    g: "SquareGrid_init 2 = Inr g"
    and nx: "\<And>i j d. i < nat 2 \<Longrightarrow> j < nat 2 \<Longrightarrow>
                get_next_cell_coordinates g \<lparr>coord_x = int i, coord_y = int j\<rparr> d =
                  Inr (map_option (\<lambda>a. \<lparr>coord_x = int (fst a), coord_y = int (snd a)\<rparr>)
                         (links (nat 2) ({..<nat 2} \<times> {..<nat 2}) (i, j) d))"
    by auto
  from nx [of 0 0 EAST] have
    e: "get_next_cell_coordinates g \<lparr>coord_x = 0, coord_y = 0\<rparr> EAST =
         Inr (Some \<lparr>coord_x = 1, coord_y = 0\<rparr>)" by simp
  from move_execute [of "\<lparr>robot_coordinates = Some \<lparr>coord_x = 0, coord_y = 0\<rparr>,
           robot_direction = Some EAST, robot_grid = g\<rparr>"] e g
  show ?thesis by (simp add: is_on_grid_def)
qed

theorem placedness_monotone_witness:
  "is_on_grid \<lparr>robot_coordinates = Some \<lparr>coord_x = 0, coord_y = 0\<rparr>,
               robot_direction = Some NORTH,
               robot_grid = \<lparr>grid_size = 1, grid_cells = [[Cell_init 0 0]]\<rparr>\<rparr>
   \<and> is_on_grid (snd (execute (TurnRobotCommand LEFT)
        \<lparr>robot_coordinates = Some \<lparr>coord_x = 0, coord_y = 0\<rparr>,
         robot_direction = Some NORTH,
         robot_grid = \<lparr>grid_size = 1, grid_cells = [[Cell_init 0 0]]\<rparr>\<rparr>))"
proof -
  have h: "is_on_grid \<lparr>robot_coordinates = Some \<lparr>coord_x = 0, coord_y = 0\<rparr>,
               robot_direction = Some NORTH,
               robot_grid = \<lparr>grid_size = 1, grid_cells = [[Cell_init 0 0]]\<rparr>\<rparr>"
    by (simp add: is_on_grid_def)
  from placedness_monotone [OF h, of "TurnRobotCommand LEFT"] h show ?thesis by blast
qed

lemma grid_next_in_range:
  assumes "SquareGrid_init n = Inr g" "0 < n"
    "0 \<le> coord_x c" "coord_x c < n" "0 \<le> coord_y c" "coord_y c < n"
  shows "get_next_cell_coordinates g c d = Inr None
         \<or> (\<exists>c'. get_next_cell_coordinates g c d = Inr (Some c')
               \<and> 0 \<le> coord_x c' \<and> coord_x c' < n \<and> 0 \<le> coord_y c' \<and> coord_y c' < n)"
proof -
  let ?D = "{..<nat n} \<times> {..<nat n}"
  from SquareGrid_init_next [OF assms(2)] assms(1) have
    nx: "\<And>i j d. i < nat n \<Longrightarrow> j < nat n \<Longrightarrow>
                get_next_cell_coordinates g \<lparr>coord_x = int i, coord_y = int j\<rparr> d =
                  Inr (map_option (\<lambda>a. \<lparr>coord_x = int (fst a), coord_y = int (snd a)\<rparr>)
                         (links (nat n) ?D (i, j) d))"
    by auto
  from assms have xy: "nat (coord_x c) < nat n" "nat (coord_y c) < nat n" by simp_all
  have c: "c = \<lparr>coord_x = int (nat (coord_x c)), coord_y = int (nat (coord_y c))\<rparr>"
    using assms by simp
  have at: "get_next_cell_coordinates g c d =
              Inr (map_option (\<lambda>a. \<lparr>coord_x = int (fst a), coord_y = int (snd a)\<rparr>)
                     (links (nat n) ?D (nat (coord_x c), nat (coord_y c)) d))"
    using nx [OF xy, of d] c by simp
  show ?thesis
  proof (cases "links (nat n) ?D (nat (coord_x c), nat (coord_y c)) d")
    case None
    with at show ?thesis by simp
  next
    case (Some a)
    from links_in_grid [OF Some xy] have "fst a < nat n" "snd a < nat n"
      by (simp_all add: in_grid_def)
    then have "int (fst a) < n" "int (snd a) < n" by linarith+
    with at Some show ?thesis by simp
  qed
qed

lemma execute_keeps_range:
  assumes "SquareGrid_init n = Inr g" "0 < n" "robot_grid r = g" "unplaced_or_in_range n r"
    "\<And>c d. cmd = PlaceRobotCommand c d \<Longrightarrow> 0 \<le> coord_x c \<and> 0 \<le> coord_y c"
  shows "\<exists>b r'. execute cmd r = (Inr b, r') \<and> robot_grid r' = g \<and> unplaced_or_in_range n r'"
proof (cases cmd)
  case NopRobotCommand
  with assms show ?thesis by auto
next
  case (PlaceRobotCommand c d)
  from SquareGrid_init_next [OF assms(2)] assms(1) have "grid_size g = n" by auto
  with assms(5) [OF PlaceRobotCommand] assms(3,4) PlaceRobotCommand show ?thesis
    by (auto simp: is_valid_cell_def set_direction_def unplaced_or_in_range_def)
next
  case MoveRobotCommand
  show ?thesis
  proof (cases "is_on_grid r")
    case False
    with assms MoveRobotCommand show ?thesis by auto
  next
    case True
    then obtain c d where cd: "robot_coordinates r = Some c" "robot_direction r = Some d"
      by (auto simp: is_on_grid_def)
    with assms(4) have rng: "0 \<le> coord_x c" "coord_x c < n" "0 \<le> coord_y c" "coord_y c < n"
      by (simp_all add: unplaced_or_in_range_def)
    from grid_next_in_range [OF assms(1,2) rng, of d] True cd assms(3,4) MoveRobotCommand
    show ?thesis
      by (auto simp: unplaced_or_in_range_def)
  qed
next
  case (TurnRobotCommand rot)
  with assms show ?thesis
    by (auto simp: is_on_grid_def set_direction_def unplaced_or_in_range_def split: option.splits)
next
  case ReportRobotCommand
  with assms show ?thesis by auto
qed

lemma spin_keeps_range:
  assumes "SquareGrid_init n = Inr g" "0 < n"
    "\<And>s c d. generate_command s = PlaceRobotCommand c d \<Longrightarrow> 0 \<le> coord_x c \<and> 0 \<le> coord_y c"
  shows "robot_grid r = g \<Longrightarrow> unplaced_or_in_range n r \<Longrightarrow>
         fst (spin lines r) = Inr () \<and> unplaced_or_in_range n (snd (spin lines r))"
proof (induction lines arbitrary: r)
  case Nil
  then show ?case by simp
next
  case (Cons line rest)
  from execute_keeps_range [OF assms(1,2) Cons.prems, of "generate_command (strip_newlines line)"]
    assms(3)
  obtain b r' where
    "execute (generate_command (strip_newlines line)) r = (Inr b, r')"
    "robot_grid r' = g" "unplaced_or_in_range n r'"
    by blast
  with Cons.IH [of r'] show ?case by simp
qed

section \<open>Parsing commands\<close>

lemma py_getitem_nat:
  "py_getitem xs (int k) = Inr v \<longleftrightarrow> k < length xs \<and> v = xs ! k"
  by (auto simp: py_getitem_def)

lemma py_getitem_0: "py_getitem xs 0 = Inr v \<longleftrightarrow> 0 < length xs \<and> v = xs ! 0"
  using py_getitem_nat [of xs 0 v] by simp

lemma py_getitem_1: "py_getitem xs 1 = Inr v \<longleftrightarrow> 1 < length xs \<and> v = xs ! 1"
  using py_getitem_nat [of xs 1 v] by simp

lemma py_getitem_2: "py_getitem xs 2 = Inr v \<longleftrightarrow> 2 < length xs \<and> v = xs ! 2"
  using py_getitem_nat [of xs 2 v] by simp

lemma split_on_nonempty: "split_on sep s \<noteq> []"
  by (induction s) (auto split: list.splits)

lemma split_on_no_sep: "sep \<notin> set s \<Longrightarrow> split_on sep s = [s]"
  by (induction s) auto

lemma split_on_single: "split_on sep s = [w] \<Longrightarrow> s = w"
proof (induction s arbitrary: w)
  case Nil
  then show ?case by simp
next
  case (Cons c s)
  show ?case
  proof (cases "c = sep")
    case True
    with Cons.prems show ?thesis using split_on_nonempty [of sep s] by simp
  next
    case False
    with Cons.prems obtain f where f: "split_on sep s = [f]" "w = c # f"
      using split_on_nonempty [of sep s] by (auto split: list.splits)
    from Cons.IH [OF f(1)] f(2) show ?thesis by simp
  qed
qed

lemma api_generator_map_cases:
  "api_generator_map k = Some gen \<Longrightarrow>
     (k = ''PLACE'' \<and> gen = generate_place_command)
   \<or> (k = ''MOVE'' \<and> gen = generate_move_command)
   \<or> (k = ''LEFT'' \<and> gen = generate_turn_command)
   \<or> (k = ''RIGHT'' \<and> gen = generate_turn_command)
   \<or> (k = ''REPORT'' \<and> gen = generate_report_command)"
  by (simp add: api_generator_map_def split: if_splits)

lemma decimal_digit_range:
  assumes "decimal_digit c = Some v"
  shows "0 \<le> v \<and> c \<in> set ''0123456789''"
proof -
  from assms have k: "48 \<le> (of_char c :: nat)" "(of_char c :: nat) \<le> 57" and v: "0 \<le> v"
    by (auto simp: decimal_digit_def Let_def split: if_splits)
  then have "(of_char c :: nat) = 48 \<or> (of_char c :: nat) = 49 \<or> (of_char c :: nat) = 50
      \<or> (of_char c :: nat) = 51 \<or> (of_char c :: nat) = 52 \<or> (of_char c :: nat) = 53
      \<or> (of_char c :: nat) = 54 \<or> (of_char c :: nat) = 55 \<or> (of_char c :: nat) = 56
      \<or> (of_char c :: nat) = 57"
    by arith
  then have "(of_char c :: nat) \<in> {48, 49, 50, 51, 52, 53, 54, 55, 56, 57}" by blast
  then have "char_of (of_char c :: nat) \<in> char_of ` {48 :: nat, 49, 50, 51, 52, 53, 54, 55, 56, 57}"
    by (rule imageI)
  then have "c \<in> char_of ` {48 :: nat, 49, 50, 51, 52, 53, 54, 55, 56, 57}" by simp
  then have "c \<in> set ''0123456789''"
    by (simp add: char_of_def bit_Suc_0_iff)
  with v show ?thesis by simp
qed

lemma py_int_from_digits:
  "py_int_from acc s = Inr v \<Longrightarrow> 0 \<le> acc \<Longrightarrow>
     0 \<le> v \<and> list_all (\<lambda>c. c \<in> set ''0123456789'') s"
proof (induction s arbitrary: acc)
  case Nil
  then show ?case by simp
next
  case (Cons c s)
  then obtain d where d: "decimal_digit c = Some d" "py_int_from (10 * acc + d) s = Inr v"
    by (auto split: option.splits)
  from decimal_digit_range [OF d(1)] have "0 \<le> d" "c \<in> set ''0123456789''" by blast+
  with Cons.IH [OF d(2)] Cons.prems(2) show ?case by simp
qed

lemma py_int_digits:
  "py_int s = Inr v \<Longrightarrow> 0 \<le> v \<and> spec_unsigned_decimal s"
  using py_int_from_digits [of 0 s v]
  by (auto simp: py_int_def spec_unsigned_decimal_def split: if_splits)

lemma generate_place_command_shape:
  assumes "generate_place_command data = Inr cmd"
  shows "\<exists>kw remainder p0 p1 p2 rest x y d.
           data = [kw, remainder] \<and> split_on CHR '','' remainder = p0 # p1 # p2 # rest
         \<and> isdigit p0 \<and> isdigit p1 \<and> Direction_members p2 = Some d
         \<and> py_int p0 = Inr x \<and> py_int p1 = Inr y
         \<and> cmd = PlaceRobotCommand \<lparr>coord_x = x, coord_y = y\<rparr> d"
proof -
  from assms have len: "length data = 2"
    by (auto simp: generate_place_command_def split: if_splits)
  then obtain kw remainder where data: "data = [kw, remainder]"
    by (cases data; cases "tl data") auto
  define params where "params = split_on CHR '','' remainder"
  from assms data obtain x y d where
    g: "2 < length params"
       "isdigit (params ! 0)" "isdigit (params ! 1)" "Direction_members (params ! 2) = Some d"
       "py_int (params ! 0) = Inr x" "py_int (params ! 1) = Inr y"
       "cmd = PlaceRobotCommand \<lparr>coord_x = x, coord_y = y\<rparr> d"
    unfolding generate_place_command_def Let_def params_def
    by (auto simp: py_getitem_0 py_getitem_1 py_getitem_2
        split: sum.splits if_splits option.splits)
  from g(1) obtain p0 p1 p2 rest where p: "params = p0 # p1 # p2 # rest"
    by (cases params; cases "tl params"; cases "tl (tl params)") auto
  with g data show ?thesis by (simp add: params_def)
qed

lemma generate_command_try_cases:
  assumes "generate_command_try s = Inr cmd"
  shows "(s = ''MOVE'' \<and> cmd = MoveRobotCommand)
       \<or> (s = ''LEFT'' \<and> cmd = TurnRobotCommand LEFT)
       \<or> (s = ''RIGHT'' \<and> cmd = TurnRobotCommand RIGHT)
       \<or> (s = ''REPORT'' \<and> cmd = ReportRobotCommand)
       \<or> (\<exists>remainder. split_on CHR '' '' s = [''PLACE'', remainder]
             \<and> generate_place_command [''PLACE'', remainder] = Inr cmd)"
proof -
  define data where "data = split_on CHR '' '' s"
  from assms obtain gen where
    gen: "0 < length data" "api_generator_map (data ! 0) = Some gen" "gen data = Inr cmd"
    by (auto simp: generate_command_try_def data_def [symmetric] Let_def
        py_getitem_0 split: sum.splits option.splits)
  from api_generator_map_cases [OF gen(2)] show ?thesis
  proof (elim disjE conjE)
    assume k: "data ! 0 = ''PLACE''" and "gen = generate_place_command"
    with gen(3) have p: "generate_place_command data = Inr cmd" by simp
    from generate_place_command_shape [OF p] obtain kw remainder where "data = [kw, remainder]"
      by blast
    with k p show ?thesis by (auto simp: data_def)
  next
    assume k: "data ! 0 = ''MOVE''" and "gen = generate_move_command"
    with gen(1,3) have "data = [''MOVE'']" "cmd = MoveRobotCommand"
      by (cases data; auto simp: generate_move_command_def split: if_splits)+
    with split_on_single [of "CHR '' ''" s] show ?thesis by (simp add: data_def)
  next
    assume k: "data ! 0 = ''LEFT''" and "gen = generate_turn_command"
    with gen(1,3) have "data = [''LEFT'']" "cmd = TurnRobotCommand LEFT"
      by (cases data; auto simp: generate_turn_command_def RobotRotation_members_def
          split: if_splits)+
    with split_on_single [of "CHR '' ''" s] show ?thesis by (simp add: data_def)
  next
    assume k: "data ! 0 = ''RIGHT''" and "gen = generate_turn_command"
    with gen(1,3) have "data = [''RIGHT'']" "cmd = TurnRobotCommand RIGHT"
      by (cases data; auto simp: generate_turn_command_def RobotRotation_members_def
          split: if_splits)+
    with split_on_single [of "CHR '' ''" s] show ?thesis by (simp add: data_def)
  next
    assume k: "data ! 0 = ''REPORT''" and "gen = generate_report_command"
    with gen(1,3) have "data = [''REPORT'']" "cmd = ReportRobotCommand"
      by (cases data; auto simp: generate_report_command_def split: if_splits)+
    with split_on_single [of "CHR '' ''" s] show ?thesis by (simp add: data_def)
  qed
qed


lemma Direction_members_names:
  "Direction_members p = Some d \<Longrightarrow> p \<in> set [''WEST'', ''EAST'', ''NORTH'', ''SOUTH'']"
  by (simp add: Direction_members_def split: if_splits)

text \<open>
  What every accepted line looks like: a bare keyword, or \<open>PLACE\<close> followed by one token
  with at least three comma-separated fields, the first two made of ASCII digits and the
  third a direction name. Every other line gives the no-op command.
\<close>

lemma generate_command_accepts:
  assumes "generate_command s \<noteq> NopRobotCommand"
  shows "s \<in> set [''MOVE'', ''LEFT'', ''RIGHT'', ''REPORT'']
       \<or> (\<exists>remainder p0 p1 p2 rest.
             split_on CHR '' '' s = [''PLACE'', remainder]
           \<and> split_on CHR '','' remainder = p0 # p1 # p2 # rest
           \<and> spec_unsigned_decimal p0 \<and> spec_unsigned_decimal p1
           \<and> p2 \<in> set [''WEST'', ''EAST'', ''NORTH'', ''SOUTH''])"
proof -
  from assms obtain cmd where t: "generate_command_try s = Inr cmd"
    by (auto simp: generate_command_def split: sum.splits)
  from generate_command_try_cases [OF t] show ?thesis
  proof (elim disjE conjE exE)
    fix remainder
    assume sp: "split_on CHR '' '' s = [''PLACE'', remainder]"
      and p: "generate_place_command [''PLACE'', remainder] = Inr cmd"
    from generate_place_command_shape [OF p] obtain p0 p1 p2 rest x y d where
      "split_on CHR '','' remainder = p0 # p1 # p2 # rest"
      "Direction_members p2 = Some d" "py_int p0 = Inr x" "py_int p1 = Inr y"
      by auto
    with sp py_int_digits Direction_members_names show ?thesis by blast
  qed simp_all
qed

lemma generate_command_place_fields:
  assumes "generate_command s = PlaceRobotCommand c d"
  shows "\<exists>remainder p0 p1 p2 rest.
           split_on CHR '' '' s = [''PLACE'', remainder]
         \<and> split_on CHR '','' remainder = p0 # p1 # p2 # rest
         \<and> spec_unsigned_decimal p0 \<and> spec_unsigned_decimal p1
         \<and> Direction_members p2 = Some d
         \<and> py_int p0 = Inr (coord_x c) \<and> py_int p1 = Inr (coord_y c)
         \<and> 0 \<le> coord_x c \<and> 0 \<le> coord_y c"
proof -
  from assms have t: "generate_command_try s = Inr (PlaceRobotCommand c d)"
    by (auto simp: generate_command_def split: sum.splits)
  from generate_command_try_cases [OF t] obtain remainder where
    sp: "split_on CHR '' '' s = [''PLACE'', remainder]"
    and p: "generate_place_command [''PLACE'', remainder] = Inr (PlaceRobotCommand c d)"
    by auto
  from generate_place_command_shape [OF p] obtain p0 p1 p2 rest where
    f: "split_on CHR '','' remainder = p0 # p1 # p2 # rest"
      "Direction_members p2 = Some d" "py_int p0 = Inr (coord_x c)" "py_int p1 = Inr (coord_y c)"
    by auto
  from py_int_digits [OF f(3)] py_int_digits [OF f(4)] sp f show ?thesis by blast
qed

text \<open>
  C2. A \<open>Place\<close> command is claimed to be returned only when the remainder splits into
  exactly three comma-separated fields, and \<open>Nop\<close> for a remainder with more than three.
  The code reads the first three fields and never looks at the number of fields: a line
  with a fourth field is parsed as a \<open>Place\<close> command.
\<close>

theorem place_extra_fields_accepted:
  "generate_command ''PLACE 1,2,NORTH,EXTRA'' =
     PlaceRobotCommand \<lparr>coord_x = 1, coord_y = 2\<rparr> NORTH
   \<and> split_on CHR '','' ''1,2,NORTH,EXTRA'' = [''1'', ''2'', ''NORTH'', ''EXTRA'']"
  by (simp add: generate_command_def generate_command_try_def py_getitem_def
      api_generator_map_def generate_place_command_def isdigit_def isdigit_char_def
      Direction_members_def py_int_def decimal_digit_def)

text \<open>
  C5. \<open>generate_command\<close> is claimed to return \<open>Nop\<close> for every string that is not one of
  the five valid command forms. It is total and raises nothing (every exception of the
  body becomes \<open>Nop\<close>), but a \<open>PLACE\<close> line with a trailing fourth field, which the
  grammar of the specification rejects, is not turned into \<open>Nop\<close>.
\<close>

theorem invalid_form_not_nop:
  "\<not> spec_valid_command ''PLACE 0,0,EAST,''
   \<and> generate_command ''PLACE 0,0,EAST,'' =
       PlaceRobotCommand \<lparr>coord_x = 0, coord_y = 0\<rparr> EAST"
  by (simp add: spec_valid_command_def spec_place_arguments_def
      generate_command_def generate_command_try_def py_getitem_def
      api_generator_map_def generate_place_command_def isdigit_def isdigit_char_def
      Direction_members_def py_int_def decimal_digit_def)

section \<open>The robot never leaves the grid\<close>

text \<open>
  C9. On the grid built by \<open>SquareGrid(n)\<close>, \<open>n > 0\<close>, starting from the unplaced robot
  and running any list of raw lines through the parser and \<open>execute\<close>: the loop raises
  nothing, and the robot it leaves is unplaced or has coordinates with \<open>0 \<le> x < n\<close> and
  \<open>0 \<le> y < n\<close>. The lists of lines include every prefix, so this covers every reachable
  state. Moreover \<open>Move\<close>, \<open>Turn\<close> and \<open>Report\<close> on a robot that is not placed return
  false and leave it unchanged.
\<close>

theorem never_off_grid:
  assumes "0 < n"
  shows "\<exists>g. SquareGrid_init n = Inr g
     \<and> (\<forall>lines. fst (spin lines (Robot_init g)) = Inr ()
           \<and> unplaced_or_in_range n (snd (spin lines (Robot_init g))))
     \<and> (\<forall>r rot cmd. \<not> is_on_grid r
            \<and> cmd \<in> {MoveRobotCommand, TurnRobotCommand rot, ReportRobotCommand}
          \<longrightarrow> execute cmd r = (Inr False, r))"
proof -
  from SquareGrid_init_next [OF assms] obtain g where g: "SquareGrid_init n = Inr g" by blast
  have nonneg: "0 \<le> coord_x c \<and> 0 \<le> coord_y c"
    if "generate_command s = PlaceRobotCommand c d" for s c d
    using generate_command_place_fields [OF that] by blast
  have start: "robot_grid (Robot_init g) = g" "unplaced_or_in_range n (Robot_init g)"
    by (simp_all add: Robot_init_def unplaced_or_in_range_def)
  have "fst (spin lines (Robot_init g)) = Inr ()
          \<and> unplaced_or_in_range n (snd (spin lines (Robot_init g)))" for lines
    by (rule spin_keeps_range [OF g assms nonneg start])
  moreover have "execute cmd r = (Inr False, r)"
    if "\<not> is_on_grid r \<and> cmd \<in> {MoveRobotCommand, TurnRobotCommand rot, ReportRobotCommand}"
    for r rot cmd
    using that by auto
  ultimately show ?thesis using g by blast
qed

theorem never_off_grid_witness:
  "\<exists>g. SquareGrid_init 5 = Inr g
     \<and> fst (spin [''PLACE 4,4,NORTH'', ''MOVE'', ''REPORT''] (Robot_init g)) = Inr ()
     \<and> unplaced_or_in_range 5 (snd (spin [''PLACE 4,4,NORTH'', ''MOVE'', ''REPORT''] (Robot_init g)))
     \<and> \<not> is_on_grid (Robot_init g)
     \<and> execute MoveRobotCommand (Robot_init g) = (Inr False, Robot_init g)"
proof -
  from never_off_grid [of 5] obtain g where
    g: "SquareGrid_init 5 = Inr g"
    and inv: "\<And>lines. fst (spin lines (Robot_init g)) = Inr ()
           \<and> unplaced_or_in_range 5 (snd (spin lines (Robot_init g)))"
    and fails: "\<And>r rot cmd. \<not> is_on_grid r
            \<and> cmd \<in> {MoveRobotCommand, TurnRobotCommand rot, ReportRobotCommand}
          \<Longrightarrow> execute cmd r = (Inr False, r)"
    by auto
  have u: "\<not> is_on_grid (Robot_init g)" by (simp add: is_on_grid_def Robot_init_def)
  from fails [of "Robot_init g" MoveRobotCommand RIGHT] u
  have "execute MoveRobotCommand (Robot_init g) = (Inr False, Robot_init g)" by simp
  with g inv [of "[''PLACE 4,4,NORTH'', ''MOVE'', ''REPORT'']"] u show ?thesis by blast
qed

end
